theory Spec2Isabelle
  imports Main
begin

unbundle bit_operations_syntax

section \<open>The linear congruential generator of lcgrandom.py\<close>

text \<open>
  Python integers are unbounded, so every number is an \<open>int\<close>. Python's \<open>//\<close> and \<open>%\<close>
  round towards minus infinity, as \<open>div\<close> and \<open>mod\<close> on \<open>int\<close> do. An exception is a value
  of type \<open>error\<close>: \<open>AssertionError\<close> for a failed \<open>assert\<close> (the specification calls it
  InvalidParameterError), \<open>ValueError\<close> for the \<open>raise ValueError\<close> of \<open>reciprocal_mod\<close>
  (the specification's NoInverseError) and for the builtin \<open>pow\<close> called with modulus 0.
\<close>

datatype error = AssertionError | ValueError

text \<open>The fields of an \<open>LcgRandom\<close> object, in the order \<open>__init__\<close> assigns them.\<close>

record LcgRandom =
  lcg_a :: int
  lcg_ainv :: int
  lcg_b :: int
  lcg_m :: int
  lcg_x :: int

subsection \<open>reciprocal_mod\<close>

text \<open>
  The \<open>while y != 0\<close> loop of \<open>reciprocal_mod\<close> on its four variables. Both tuple
  assignments read the old values. The loop returns the final \<open>x\<close> and \<open>a\<close>.
\<close>

function reciprocal_loop :: "int \<Rightarrow> int \<Rightarrow> int \<Rightarrow> int \<Rightarrow> int \<times> int" where
  "reciprocal_loop x y a b =
     (if y \<noteq> 0 then reciprocal_loop y (x mod y) b (a - x div y * b) else (x, a))"
  by pat_completeness auto
termination
  by (relation "measure (\<lambda>(x, y, a, b). nat \<bar>y\<bar>)") (auto simp: abs_mod_less)

declare reciprocal_loop.simps [simp del]

definition reciprocal_mod :: "int \<Rightarrow> int \<Rightarrow> error + int" where
  "reciprocal_mod x md =
     (if \<not> (md > 0 \<and> 0 \<le> x \<and> x < md) then Inl AssertionError
      else case reciprocal_loop md x 0 1 of
        (x', a') \<Rightarrow> if x' = 1 then Inr (a' mod md) else Inl ValueError)"

subsection \<open>Construction and state transitions\<close>

text \<open>\<open>__init__\<close>: the four assertions in order, then the call of \<open>reciprocal_mod\<close>.\<close>

definition init :: "int \<Rightarrow> int \<Rightarrow> int \<Rightarrow> int \<Rightarrow> error + LcgRandom" where
  "init a b m seed =
     (if \<not> a > 0 then Inl AssertionError
      else if \<not> b \<ge> 0 then Inl AssertionError
      else if \<not> m > 0 then Inl AssertionError
      else if \<not> (0 \<le> seed \<and> seed < m) then Inl AssertionError
      else case reciprocal_mod a m of
        Inl err \<Rightarrow> Inl err
      | Inr ainv \<Rightarrow> Inr \<lparr>lcg_a = a, lcg_ainv = ainv, lcg_b = b, lcg_m = m, lcg_x = seed\<rparr>)"

definition get_state :: "LcgRandom \<Rightarrow> int" where
  "get_state e = lcg_x e"

text \<open>
  \<open>next\<close> and \<open>previous\<close> (\<open>next\<close> is a keyword of Isabelle, hence \<open>lcg_next\<close>). Only \<open>x\<close>
  is ever assigned after construction, and \<open>init\<close> returns an object only when \<open>m > 0\<close>,
  so \<open>% self.m\<close> cannot divide by zero on a constructed object; the theorems below are
  about objects with \<open>0 < lcg_m e\<close>.
\<close>

definition lcg_next :: "LcgRandom \<Rightarrow> LcgRandom" where
  "lcg_next e = e\<lparr>lcg_x := (lcg_x e * lcg_a e + lcg_b e) mod lcg_m e\<rparr>"

definition previous :: "LcgRandom \<Rightarrow> LcgRandom" where
  "previous e = e\<lparr>lcg_x := (lcg_x e - lcg_b e) * lcg_ainv e mod lcg_m e\<rparr>"

text \<open>
  Python's builtin \<open>pow(base, exp, mod)\<close> for an exponent \<open>exp \<ge> 0\<close>: it raises
  \<open>ValueError\<close> when \<open>mod\<close> is 0 and returns \<open>base ** exp % mod\<close> otherwise.
\<close>

definition py_pow :: "int \<Rightarrow> nat \<Rightarrow> int \<Rightarrow> error + int" where
  "py_pow base ex md = (if md = 0 then Inl ValueError else Inr (base ^ ex mod md))"

text \<open>
  \<open>skip\<close>. After the branch on \<open>n >= 0\<close> the local \<open>n\<close> is not negative, so \<open>pow\<close> gets
  \<open>nat n\<close>. The first \<open>pow\<close> raises when \<open>ma = a1 * m\<close> is 0. When it returns, both \<open>a1\<close>
  and \<open>m\<close> are not 0, so neither \<open>// a1\<close>, nor the second \<open>pow\<close>, nor \<open>% self.m\<close> can raise:
  the first \<open>pow\<close> is the only place where \<open>skip\<close> fails, and it fails before \<open>self.x\<close>
  is assigned.
\<close>

definition skip :: "LcgRandom \<Rightarrow> int \<Rightarrow> error + LcgRandom" where
  "skip e n =
     (let (a, b, n) =
            (if n \<ge> 0 then (lcg_a e, lcg_b e, n)
             else (lcg_ainv e, - lcg_ainv e * lcg_b e, - n));
          a1 = a - 1;
          ma = a1 * lcg_m e
      in case py_pow a (nat n) ma of
           Inl err \<Rightarrow> Inl err
         | Inr p \<Rightarrow>
            (let y = (p - 1) div a1 * b in
             case py_pow a (nat n) (lcg_m e) of
               Inl err \<Rightarrow> Inl err
             | Inr q \<Rightarrow>
                (let z = q * lcg_x e in
                 Inr (e\<lparr>lcg_x := (y + z) mod lcg_m e\<rparr>))))"

text \<open>The object as it is after a call of \<open>skip\<close>, whether the call returned or raised.\<close>

definition after_skip :: "LcgRandom \<Rightarrow> int \<Rightarrow> LcgRandom" where
  "after_skip e n = (case skip e n of Inl err \<Rightarrow> e | Inr e' \<Rightarrow> e')"

subsection \<open>Bit extraction\<close>

text \<open>\<open>randbit\<close> returns the bit and the advanced object; \<open>m >> 1\<close> is \<open>drop_bit 1 m\<close>.\<close>

definition randbit :: "LcgRandom \<Rightarrow> bool \<times> LcgRandom" where
  "randbit e = (let e' = lcg_next e in (lcg_x e' \<ge> drop_bit 1 (lcg_m e'), e'))"

text \<open>
  The \<open>for i in range(k)\<close> loop of \<open>getrandbits\<close> with its remaining number of rounds.
  \<open>result << 1\<close> is \<open>push_bit 1 result\<close>, and a Python \<open>bool\<close> is the integer 0 or 1.
\<close>

fun getrandbits_loop :: "nat \<Rightarrow> int \<Rightarrow> LcgRandom \<Rightarrow> int \<times> LcgRandom" where
  "getrandbits_loop 0 result e = (result, e)"
| "getrandbits_loop (Suc i) result e =
     (case randbit e of
        (bt, e') \<Rightarrow> getrandbits_loop i (push_bit 1 result OR of_bool bt) e')"

text \<open>
  \<open>getrandbits\<close> has no check of \<open>k\<close>: \<open>range(k)\<close> is empty for every \<open>k \<le> 0\<close>, which is
  \<open>nat k = 0\<close> rounds. No statement of it raises, so its result is always an \<open>Inr\<close>.
\<close>

definition getrandbits :: "LcgRandom \<Rightarrow> int \<Rightarrow> error + int \<times> LcgRandom" where
  "getrandbits e k = Inr (getrandbits_loop (nat k) 0 e)"

subsection \<open>Sequences of calls\<close>

text \<open>
  The calls that change the state, and the object after a sequence of them made one
  after the other on a constructed object.
\<close>

datatype call = Next | Previous | Skip int

fun apply_call :: "call \<Rightarrow> LcgRandom \<Rightarrow> LcgRandom" where
  "apply_call Next e = lcg_next e"
| "apply_call Previous e = previous e"
| "apply_call (Skip n) e = after_skip e n"

fun run :: "call list \<Rightarrow> LcgRandom \<Rightarrow> LcgRandom" where
  "run [] e = e"
| "run (c # cs) e = run cs (apply_call c e)"

text \<open>
  The object after \<open>n\<close> sequential \<open>next()\<close> calls for \<open>n \<ge> 0\<close>, or \<open>|n|\<close> sequential
  \<open>previous()\<close> calls for \<open>n < 0\<close>.
\<close>

definition step_by_step :: "LcgRandom \<Rightarrow> int \<Rightarrow> LcgRandom" where
  "step_by_step e n =
     (if n \<ge> 0 then (lcg_next ^^ nat n) e else (previous ^^ nat (- n)) e)"

subsection \<open>The invariant of a constructed object\<close>

text \<open>
  What \<open>__init__\<close> establishes and every later call keeps: the parameters are in the
  ranges the assertions check, \<open>ainv\<close> is the reciprocal of \<open>a\<close> modulo \<open>m\<close>, and the
  state lies in \<open>[0, m)\<close>. It is a device of the proofs below, not a function of the
  source.
\<close>

definition class_invariant :: "LcgRandom \<Rightarrow> bool" where
  "class_invariant e =
     (0 < lcg_a e \<and> lcg_a e < lcg_m e \<and> 0 \<le> lcg_b e \<and>
      0 \<le> lcg_ainv e \<and> lcg_ainv e < lcg_m e \<and>
      lcg_a e * lcg_ainv e mod lcg_m e = 1 \<and>
      0 \<le> lcg_x e \<and> lcg_x e < lcg_m e)"

section \<open>The modular inverse\<close>

text \<open>
  The loop equation is kept out of the simplifier, which would unfold it forever; the
  two lemmas below unfold it once, at the exit and at a round of the loop.
\<close>

lemma reciprocal_loop_exit: "reciprocal_loop x 0 a b = (x, a)"
  by (subst reciprocal_loop.simps) simp

lemma reciprocal_loop_round:
  "y \<noteq> 0 \<Longrightarrow> reciprocal_loop x y a b = reciprocal_loop y (x mod y) b (a - x div y * b)"
  by (subst reciprocal_loop.simps) simp

lemma reciprocal_loop_gcd:
  "0 \<le> x \<Longrightarrow> 0 \<le> y \<Longrightarrow> fst (reciprocal_loop x y a b) = gcd x y"
proof (induction x y a b rule: reciprocal_loop.induct)
  case (1 x y a b)
  show ?case
  proof (cases "y = 0")
    case True
    with "1.prems" show ?thesis by (simp add: reciprocal_loop_exit)
  next
    case False
    with "1.prems" have "0 < y" by simp
    then have "0 \<le> x mod y" by simp
    with False "1.IH" "1.prems" have "fst (reciprocal_loop y (x mod y) b (a - x div y * b)) = gcd y (x mod y)"
      by simp
    also have "\<dots> = gcd x y" by (simp add: gcd.commute gcd_red_int[symmetric])
    finally show ?thesis using False by (simp add: reciprocal_loop_round[of y x])
  qed
qed

lemma reciprocal_loop_bezout:
  "md dvd a * x0 - x \<Longrightarrow> md dvd b * x0 - y \<Longrightarrow>
   md dvd snd (reciprocal_loop x y a b) * x0 - fst (reciprocal_loop x y a b)"
proof (induction x y a b rule: reciprocal_loop.induct)
  case (1 x y a b)
  show ?case
  proof (cases "y = 0")
    case True
    with "1.prems" show ?thesis by (simp add: reciprocal_loop_exit)
  next
    case False
    have "(a - x div y * b) * x0 - x mod y = (a * x0 - x) - x div y * (b * x0 - y)"
      by (simp add: algebra_simps flip: minus_mult_div_eq_mod)
    then have "md dvd (a - x div y * b) * x0 - x mod y"
      using "1.prems" by simp
    with False "1.IH" "1.prems" show ?thesis by (simp add: reciprocal_loop_round[of y x])
  qed
qed

lemma reciprocal_mod_ValueError:
  "reciprocal_mod x md = Inl ValueError \<longleftrightarrow> 0 < md \<and> 0 \<le> x \<and> x < md \<and> gcd x md \<noteq> 1"
proof (cases "0 < md \<and> 0 \<le> x \<and> x < md")
  case True
  then have "fst (reciprocal_loop md x 0 1) = gcd x md"
    by (simp add: reciprocal_loop_gcd gcd.commute)
  with True show ?thesis
    by (auto simp: reciprocal_mod_def split: prod.splits)
next
  case False
  then show ?thesis by (auto simp: reciprocal_mod_def)
qed

lemma reciprocal_mod_inverse:
  assumes "0 < md" "0 \<le> x" "x < md" "gcd x md = 1"
  shows "\<exists>y. reciprocal_mod x md = Inr y \<and> 0 \<le> y \<and> y < md \<and> x * y mod md = 1 mod md"
proof -
  obtain g c where loop: "reciprocal_loop md x 0 1 = (g, c)"
    by (cases "reciprocal_loop md x 0 1")
  from assms have "fst (reciprocal_loop md x 0 1) = gcd x md"
    by (simp add: reciprocal_loop_gcd gcd.commute)
  with loop assms have g: "g = 1" by simp
  have "md dvd snd (reciprocal_loop md x 0 1) * x - fst (reciprocal_loop md x 0 1)"
    by (rule reciprocal_loop_bezout) simp_all
  with loop g have "md dvd c * x - 1" by simp
  then have "(c * x) mod md = 1 mod md"
    by (simp only: mod_eq_dvd_iff)
  moreover have "x * (c mod md) mod md = c * x mod md"
    by (simp only: mod_mult_right_eq mult.commute[of c x])
  ultimately have inv: "x * (c mod md) mod md = 1 mod md"
    by (rule trans[rotated])
  from assms loop g have res: "reciprocal_mod x md = Inr (c mod md)"
    by (simp add: reciprocal_mod_def)
  from assms have "0 \<le> c mod md" "c mod md < md" by simp_all
  with inv res show ?thesis by blast
qed

lemma inverse_unique:
  fixes x md y y' :: int
  assumes "0 \<le> y" "y < md" "0 \<le> y'" "y' < md"
    and "x * y mod md = 1 mod md" "x * y' mod md = 1 mod md"
  shows "y = y'"
proof -
  from assms(5,6) have d: "md dvd x * y - 1" "md dvd x * y' - 1"
    by (simp_all only: mod_eq_dvd_iff)
  have "y - y' = y' * (x * y - 1) - y * (x * y' - 1)"
    by (simp add: algebra_simps)
  with d have "md dvd y - y'"
    by (simp only: dvd_diff dvd_mult)
  moreover from assms have "\<bar>y - y'\<bar> < md" by linarith
  ultimately have "y - y' = 0"
    using zdvd_not_zless[of "\<bar>y - y'\<bar>" md] by (cases "y - y' = 0") simp_all
  then show ?thesis by simp
qed

section \<open>Iterating an affine map modulo m\<close>

text \<open>
  \<open>next\<close> and \<open>previous\<close> both map the state \<open>v\<close> to \<open>(v * A + B) mod m\<close>. The first lemma
  gives the state after \<open>n\<close> such steps; the second shows that the arithmetic of \<open>skip\<close>
  computes the same residue whenever \<open>A \<noteq> 1\<close>.
\<close>

lemma affine_funpow:
  fixes A B m x :: int
  assumes "0 < m"
  shows "0 \<le> x \<Longrightarrow> x < m \<Longrightarrow>
    ((\<lambda>v. (v * A + B) mod m) ^^ n) x = (A ^ n * x + B * (\<Sum>i<n. A ^ i)) mod m"
proof (induction n arbitrary: x)
  case 0
  then show ?case by simp
next
  case (Suc n)
  let ?f = "\<lambda>v. (v * A + B) mod m"
  from assms have "0 \<le> ?f x" "?f x < m" by simp_all
  then have "(?f ^^ n) (?f x) = (A ^ n * ?f x + B * (\<Sum>i<n. A ^ i)) mod m"
    by (rule Suc.IH)
  also have "\<dots> = (A ^ n * (x * A + B) + B * (\<Sum>i<n. A ^ i)) mod m"
    by (metis mod_add_left_eq mod_mult_right_eq)
  also have "A ^ n * (x * A + B) + B * (\<Sum>i<n. A ^ i) = A ^ Suc n * x + B * (\<Sum>i<Suc n. A ^ i)"
    by (simp add: algebra_simps)
  finally show ?case by (simp only: funpow_Suc_right o_apply)
qed

lemma closed_form:
  fixes A B m x :: int
  assumes "A \<noteq> 1" "m \<noteq> 0"
  shows "((A ^ n mod ((A - 1) * m) - 1) div (A - 1) * B + A ^ n mod m * x) mod m
       = (A ^ n * x + B * (\<Sum>i<n. A ^ i)) mod m"
proof -
  define S where "S = (\<Sum>i<n. A ^ i)"
  define k where "k = A ^ n div ((A - 1) * m)"
  from assms have a1: "A - 1 \<noteq> 0" by simp
  have pw: "A ^ n = (A - 1) * S + 1"
    using power_diff_1_eq[of A n] by (simp add: S_def)
  have "A ^ n mod ((A - 1) * m) = A ^ n - k * ((A - 1) * m)"
    unfolding k_def by (simp add: minus_div_mult_eq_mod)
  also have "\<dots> - 1 = (A - 1) * (S - k * m)"
    by (simp add: pw algebra_simps)
  finally have "(A ^ n mod ((A - 1) * m) - 1) div (A - 1) = S - k * m"
    using a1 by simp
  then have "((A ^ n mod ((A - 1) * m) - 1) div (A - 1) * B + A ^ n mod m * x) mod m
       = ((S - k * m) * B + A ^ n mod m * x) mod m"
    by simp
  also have "\<dots> = ((S * B + A ^ n mod m * x) + m * (- k * B)) mod m"
    by (simp add: algebra_simps)
  also have "\<dots> = (S * B + A ^ n mod m * x) mod m"
    by (simp only: mod_mult_self2)
  also have "\<dots> = (S * B + A ^ n * x) mod m"
    by (metis mod_add_right_eq mod_mult_left_eq)
  finally show ?thesis by (simp add: S_def algebra_simps)
qed

section \<open>Constructed objects and their calls\<close>

text \<open>
  An object returned by \<open>init\<close> has the parameters it was given and satisfies the
  invariant; \<open>next\<close>, \<open>previous\<close> and \<open>skip\<close> keep the invariant and the parameters.
  Away from the multiplier 1, \<open>skip\<close> returns the object that the single steps reach;
  with the multiplier 1 its first \<open>pow\<close> gets the modulus 0 and raises.
\<close>

lemma init_Inr:
  assumes "init a b m seed = Inr e"
  shows "e = \<lparr>lcg_a = a, lcg_ainv = lcg_ainv e, lcg_b = b, lcg_m = m, lcg_x = seed\<rparr>"
    and "class_invariant e"
proof -
  from assms have chk: "0 < a" "0 \<le> b" "0 < m" "0 \<le> seed" "seed < m"
    by (auto simp: init_def split: if_splits)
  with assms obtain ainv where r: "reciprocal_mod a m = Inr ainv"
    and e: "e = \<lparr>lcg_a = a, lcg_ainv = ainv, lcg_b = b, lcg_m = m, lcg_x = seed\<rparr>"
    by (auto simp: init_def split: sum.splits)
  from e show "e = \<lparr>lcg_a = a, lcg_ainv = lcg_ainv e, lcg_b = b, lcg_m = m, lcg_x = seed\<rparr>"
    by simp
  from r chk have am: "a < m"
    by (auto simp: reciprocal_mod_def split: if_splits)
  from r have "reciprocal_mod a m \<noteq> Inl ValueError" by simp
  with chk am have "gcd a m = 1"
    by (simp add: reciprocal_mod_ValueError)
  with chk am obtain y where "reciprocal_mod a m = Inr y" "0 \<le> y" "y < m" "a * y mod m = 1 mod m"
    using reciprocal_mod_inverse[of m a] by auto
  with r chk am have "0 \<le> ainv" "ainv < m" "a * ainv mod m = 1"
    by auto
  with e chk am show "class_invariant e"
    by (simp add: class_invariant_def)
qed

lemma lcg_next_steps:
  assumes "0 < lcg_m e" "0 \<le> lcg_x e" "lcg_x e < lcg_m e"
  shows "(lcg_next ^^ k) e =
     e\<lparr>lcg_x := (lcg_a e ^ k * lcg_x e + lcg_b e * (\<Sum>i<k. lcg_a e ^ i)) mod lcg_m e\<rparr>"
proof -
  have "(lcg_next ^^ k) e =
     e\<lparr>lcg_x := ((\<lambda>v. (v * lcg_a e + lcg_b e) mod lcg_m e) ^^ k) (lcg_x e)\<rparr>"
    by (induction k) (simp_all add: lcg_next_def)
  then show ?thesis
    by (simp only: affine_funpow[OF assms])
qed

lemma previous_steps:
  assumes "0 < lcg_m e" "0 \<le> lcg_x e" "lcg_x e < lcg_m e"
  shows "(previous ^^ k) e =
     e\<lparr>lcg_x := (lcg_ainv e ^ k * lcg_x e
                  + (- lcg_ainv e * lcg_b e) * (\<Sum>i<k. lcg_ainv e ^ i)) mod lcg_m e\<rparr>"
proof -
  have step: "previous u = u\<lparr>lcg_x := (lcg_x u * lcg_ainv u + (- lcg_ainv u * lcg_b u)) mod lcg_m u\<rparr>"
    for u
    by (simp add: previous_def algebra_simps)
  have "(previous ^^ k) e =
     e\<lparr>lcg_x := ((\<lambda>v. (v * lcg_ainv e + (- lcg_ainv e * lcg_b e)) mod lcg_m e) ^^ k) (lcg_x e)\<rparr>"
    by (induction k) (simp_all add: step del: mult_minus_left)
  then show ?thesis
    by (simp only: affine_funpow[OF assms])
qed

lemma skip_computes:
  assumes "(A - 1) * lcg_m e \<noteq> 0"
    and "(A, B, k) = (if 0 \<le> n then (lcg_a e, lcg_b e, n) else (lcg_ainv e, - lcg_ainv e * lcg_b e, - n))"
  shows "skip e n =
     Inr (e\<lparr>lcg_x := ((A ^ nat k mod ((A - 1) * lcg_m e) - 1) div (A - 1) * B
                        + A ^ nat k mod lcg_m e * lcg_x e) mod lcg_m e\<rparr>)"
proof -
  from assms(1) have "lcg_m e \<noteq> 0" by simp
  with assms(1) show ?thesis
    unfolding skip_def assms(2)[symmetric] by (simp add: py_pow_def Let_def)
qed

lemma skip_forward:
  assumes "0 < lcg_m e" "lcg_a e \<noteq> 1" "0 \<le> lcg_x e" "lcg_x e < lcg_m e" "0 \<le> n"
  shows "skip e n = Inr ((lcg_next ^^ nat n) e)"
proof -
  from assms have nz: "(lcg_a e - 1) * lcg_m e \<noteq> 0" "lcg_m e \<noteq> 0" by simp_all
  have "skip e n = Inr (e\<lparr>lcg_x := ((lcg_a e ^ nat n mod ((lcg_a e - 1) * lcg_m e) - 1)
          div (lcg_a e - 1) * lcg_b e + lcg_a e ^ nat n mod lcg_m e * lcg_x e) mod lcg_m e\<rparr>)"
    using nz(1) assms(5) by (intro skip_computes) simp_all
  then show ?thesis
    by (simp only: closed_form[OF assms(2) nz(2)] lcg_next_steps[OF assms(1,3,4)])
qed

lemma skip_backward:
  assumes "0 < lcg_m e" "lcg_ainv e \<noteq> 1" "0 \<le> lcg_x e" "lcg_x e < lcg_m e" "n < 0"
  shows "skip e n = Inr ((previous ^^ nat (- n)) e)"
proof -
  from assms have nz: "(lcg_ainv e - 1) * lcg_m e \<noteq> 0" "lcg_m e \<noteq> 0" by simp_all
  have "skip e n = Inr (e\<lparr>lcg_x := ((lcg_ainv e ^ nat (- n) mod ((lcg_ainv e - 1) * lcg_m e) - 1)
          div (lcg_ainv e - 1) * (- lcg_ainv e * lcg_b e)
          + lcg_ainv e ^ nat (- n) mod lcg_m e * lcg_x e) mod lcg_m e\<rparr>)"
    using nz(1) assms(5) by (intro skip_computes) simp_all
  then show ?thesis
    by (simp only: closed_form[OF assms(2) nz(2)] previous_steps[OF assms(1,3,4)])
qed

lemma skip_unit_forward:
  "lcg_a e = 1 \<Longrightarrow> 0 \<le> n \<Longrightarrow> skip e n = Inl ValueError"
  by (simp add: skip_def py_pow_def)

lemma skip_unit_backward:
  "lcg_ainv e = 1 \<Longrightarrow> n < 0 \<Longrightarrow> skip e n = Inl ValueError"
  by (simp add: skip_def py_pow_def)

lemma invariant_ainv_unit:
  assumes "class_invariant e"
  shows "lcg_ainv e = 1 \<longleftrightarrow> lcg_a e = 1"
proof
  from assms have "lcg_a e mod lcg_m e = lcg_a e"
    by (simp add: class_invariant_def)
  moreover assume "lcg_ainv e = 1"
  ultimately show "lcg_a e = 1" using assms by (simp add: class_invariant_def)
next
  from assms have "lcg_ainv e mod lcg_m e = lcg_ainv e"
    by (simp add: class_invariant_def)
  moreover assume "lcg_a e = 1"
  ultimately show "lcg_ainv e = 1" using assms by (simp add: class_invariant_def)
qed

lemma invariant_lcg_next: "class_invariant e \<Longrightarrow> class_invariant (lcg_next e)"
  by (simp add: class_invariant_def lcg_next_def)

lemma invariant_previous: "class_invariant e \<Longrightarrow> class_invariant (previous e)"
  by (simp add: class_invariant_def previous_def)

lemma skip_Inr_fields:
  "skip e n = Inr e' \<Longrightarrow> \<exists>v. e' = e\<lparr>lcg_x := v mod lcg_m e\<rparr>"
  by (auto simp: skip_def Let_def split: sum.splits if_splits)

lemma invariant_after_skip: "class_invariant e \<Longrightarrow> class_invariant (after_skip e n)"
  by (auto simp: after_skip_def class_invariant_def split: sum.splits dest!: skip_Inr_fields)

lemma invariant_apply_call: "class_invariant e \<Longrightarrow> class_invariant (apply_call c e)"
  by (cases c) (simp_all add: invariant_lcg_next invariant_previous invariant_after_skip)

lemma invariant_run: "class_invariant e \<Longrightarrow> class_invariant (run cs e)"
  by (induction cs arbitrary: e) (simp_all add: invariant_apply_call)

lemma apply_call_params:
  "lcg_a (apply_call c e) = lcg_a e \<and> lcg_ainv (apply_call c e) = lcg_ainv e \<and>
   lcg_b (apply_call c e) = lcg_b e \<and> lcg_m (apply_call c e) = lcg_m e"
  by (cases c)
     (auto simp: lcg_next_def previous_def after_skip_def split: sum.splits dest!: skip_Inr_fields)

lemma run_params:
  "lcg_a (run cs e) = lcg_a e \<and> lcg_ainv (run cs e) = lcg_ainv e \<and>
   lcg_b (run cs e) = lcg_b e \<and> lcg_m (run cs e) = lcg_m e"
  by (induction cs arbitrary: e) (simp_all add: apply_call_params)

lemma previous_lcg_next:
  assumes "class_invariant e"
  shows "previous (lcg_next e) = e"
proof -
  let ?a = "lcg_a e" and ?b = "lcg_b e" and ?m = "lcg_m e" and ?x = "lcg_x e" and ?i = "lcg_ainv e"
  have "((?x * ?a + ?b) mod ?m - ?b) * ?i mod ?m = ((?x * ?a + ?b) - ?b) * ?i mod ?m"
    by (metis mod_diff_left_eq mod_mult_left_eq)
  also have "\<dots> = ?x * (?a * ?i) mod ?m" by (simp add: algebra_simps)
  also have "\<dots> = ?x * (?a * ?i mod ?m) mod ?m" by (simp only: mod_mult_right_eq)
  also have "\<dots> = ?x" using assms by (simp add: class_invariant_def)
  finally show ?thesis by (simp add: previous_def lcg_next_def)
qed

lemma lcg_next_previous:
  assumes "class_invariant e"
  shows "lcg_next (previous e) = e"
proof -
  let ?a = "lcg_a e" and ?b = "lcg_b e" and ?m = "lcg_m e" and ?x = "lcg_x e" and ?i = "lcg_ainv e"
  have "((?x - ?b) * ?i mod ?m * ?a + ?b) mod ?m = ((?x - ?b) * ?i * ?a + ?b) mod ?m"
    by (metis mod_add_left_eq mod_mult_left_eq)
  also have "\<dots> = ((?x - ?b) * (?a * ?i) + ?b) mod ?m" by (simp add: algebra_simps)
  also have "\<dots> = ((?x - ?b) * (?a * ?i mod ?m) + ?b) mod ?m"
    by (metis mod_add_left_eq mod_mult_right_eq)
  also have "\<dots> = ?x" using assms by (simp add: class_invariant_def)
  finally show ?thesis by (simp add: previous_def lcg_next_def)
qed

lemma init_AssertionError_iff:
  "init a b m seed = Inl AssertionError \<longleftrightarrow>
     a \<le> 0 \<or> b < 0 \<or> m \<le> 0 \<or> seed < 0 \<or> m \<le> seed \<or> m \<le> a"
  by (auto simp: init_def reciprocal_mod_def split: sum.splits prod.splits if_splits)

lemma init_ValueError_iff:
  "init a b m seed = Inl ValueError \<longleftrightarrow>
     0 < a \<and> a < m \<and> 0 \<le> b \<and> 0 \<le> seed \<and> seed < m \<and> gcd a m \<noteq> 1"
  using reciprocal_mod_ValueError[of a m]
  by (auto simp: init_def split: sum.splits)

lemma init_unit: "init 1 7 100 3 = Inr \<lparr>lcg_a = 1, lcg_ainv = 1, lcg_b = 7, lcg_m = 100, lcg_x = 3\<rparr>"
  by code_simp

lemma init_five: "init 5 3 16 7 = Inr \<lparr>lcg_a = 5, lcg_ainv = 13, lcg_b = 3, lcg_m = 16, lcg_x = 7\<rparr>"
  by code_simp

lemma reachable_invariant:
  "init a b m seed = Inr e0 \<Longrightarrow> class_invariant (run cs e0)"
  by (simp add: init_Inr(2) invariant_run)

lemma reachable_a:
  "init a b m seed = Inr e0 \<Longrightarrow> lcg_a (run cs e0) = a"
  using init_Inr(1)[of a b m seed e0] run_params[of cs e0]
  by (metis LcgRandom.select_convs(1))

lemma skip_steps:
  assumes "class_invariant e" "lcg_a e \<noteq> 1"
  shows "skip e n = Inr (step_by_step e n)"
proof (cases "0 \<le> n")
  case True
  with assms show ?thesis
    by (simp add: step_by_step_def skip_forward class_invariant_def)
next
  case False
  from assms have "lcg_ainv e \<noteq> 1" by (simp add: invariant_ainv_unit)
  with False assms show ?thesis
    by (simp add: step_by_step_def skip_backward class_invariant_def)
qed

lemma skip_unit:
  assumes "class_invariant e" "lcg_a e = 1"
  shows "skip e n = Inl ValueError"
proof (cases "0 \<le> n")
  case True
  with assms show ?thesis by (simp add: skip_unit_forward)
next
  case False
  from assms have "lcg_ainv e = 1" by (simp add: invariant_ainv_unit)
  with False show ?thesis by (simp add: skip_unit_backward)
qed

section \<open>The claims\<close>

subsection \<open>C1: skip against the single steps\<close>

text \<open>
  C1 says that on every constructed object \<open>skip(n)\<close> reaches the state of \<open>n\<close> sequential
  \<open>next()\<close> calls (\<open>n \<ge> 0\<close>) or \<open>|n|\<close> sequential \<open>previous()\<close> calls (\<open>n < 0\<close>). The code does
  so exactly when the multiplier \<open>a\<close> is not 1. With \<open>a = 1\<close>, which \<open>__init__\<close> accepts for
  every \<open>m > 1\<close>, \<open>ainv\<close> is 1 as well, \<open>a1\<close> and \<open>ma\<close> are 0 in both branches, and the first
  \<open>pow\<close> raises \<open>ValueError\<close> for every \<open>n\<close>, so \<open>skip\<close> reaches no state at all. The theorem
  holds in every state a constructed object can be in.
\<close>

theorem skip_matches_steps_unless_unit_multiplier:
  assumes "init a b m seed = Inr e0"
  shows "(a \<noteq> 1 \<longrightarrow> skip (run cs e0) n = Inr (step_by_step (run cs e0) n)) \<and>
         (a = 1 \<longrightarrow> skip (run cs e0) n = Inl ValueError)"
  using reachable_invariant[OF assms, of cs] reachable_a[OF assms, of cs]
  by (simp add: skip_steps skip_unit)

text \<open>
  Two objects: with \<open>a = 5\<close>, \<open>skip(-3)\<close> returns what three \<open>previous()\<close> calls reach; with
  \<open>a = 1\<close>, \<open>skip(2)\<close> raises although two \<open>next()\<close> calls reach the state 17.
\<close>

theorem skip_matches_steps_unless_unit_multiplier_witness:
  "init 5 3 16 7 = Inr \<lparr>lcg_a = 5, lcg_ainv = 13, lcg_b = 3, lcg_m = 16, lcg_x = 7\<rparr> \<and>
   skip \<lparr>lcg_a = 5, lcg_ainv = 13, lcg_b = 3, lcg_m = 16, lcg_x = 7\<rparr> (- 3)
     = Inr (step_by_step \<lparr>lcg_a = 5, lcg_ainv = 13, lcg_b = 3, lcg_m = 16, lcg_x = 7\<rparr> (- 3)) \<and>
   init 1 7 100 3 = Inr \<lparr>lcg_a = 1, lcg_ainv = 1, lcg_b = 7, lcg_m = 100, lcg_x = 3\<rparr> \<and>
   skip \<lparr>lcg_a = 1, lcg_ainv = 1, lcg_b = 7, lcg_m = 100, lcg_x = 3\<rparr> 2 = Inl ValueError \<and>
   get_state (step_by_step \<lparr>lcg_a = 1, lcg_ainv = 1, lcg_b = 7, lcg_m = 100, lcg_x = 3\<rparr> 2) = 17"
proof -
  have "skip (run [] \<lparr>lcg_a = 5, lcg_ainv = 13, lcg_b = 3, lcg_m = 16, lcg_x = 7\<rparr>) (- 3)
     = Inr (step_by_step (run [] \<lparr>lcg_a = 5, lcg_ainv = 13, lcg_b = 3, lcg_m = 16, lcg_x = 7\<rparr>) (- 3))"
    using skip_matches_steps_unless_unit_multiplier[OF init_five, of "[]" "- 3"] by simp
  moreover have "skip (run [] \<lparr>lcg_a = 1, lcg_ainv = 1, lcg_b = 7, lcg_m = 100, lcg_x = 3\<rparr>) 2
     = Inl ValueError"
    using skip_matches_steps_unless_unit_multiplier[OF init_unit, of "[]" 2] by simp
  moreover have "get_state (step_by_step \<lparr>lcg_a = 1, lcg_ainv = 1, lcg_b = 7, lcg_m = 100, lcg_x = 3\<rparr> 2) = 17"
    by (simp add: get_state_def step_by_step_def eval_nat_numeral lcg_next_def)
  ultimately show ?thesis
    using init_five init_unit by simp
qed

subsection \<open>C2: the multiplier 1\<close>

text \<open>
  C2 says that the object constructed with \<open>a = 1\<close>, \<open>b = 7\<close>, \<open>m = 100\<close>, \<open>seed = 3\<close> is in
  state 73 after \<open>skip(10)\<close>. The code has no branch for \<open>a = 1\<close>: construction succeeds,
  \<open>skip(10)\<close> raises \<open>ValueError\<close> and the state stays 3, while ten \<open>next()\<close> calls reach 73.
\<close>

theorem skip_unit_multiplier_scenario:
  "init 1 7 100 3 = Inr \<lparr>lcg_a = 1, lcg_ainv = 1, lcg_b = 7, lcg_m = 100, lcg_x = 3\<rparr> \<and>
   skip \<lparr>lcg_a = 1, lcg_ainv = 1, lcg_b = 7, lcg_m = 100, lcg_x = 3\<rparr> 10 = Inl ValueError \<and>
   get_state (after_skip \<lparr>lcg_a = 1, lcg_ainv = 1, lcg_b = 7, lcg_m = 100, lcg_x = 3\<rparr> 10) = 3 \<and>
   get_state (step_by_step \<lparr>lcg_a = 1, lcg_ainv = 1, lcg_b = 7, lcg_m = 100, lcg_x = 3\<rparr> 10) = 73"
proof -
  have s: "skip \<lparr>lcg_a = 1, lcg_ainv = 1, lcg_b = 7, lcg_m = 100, lcg_x = 3\<rparr> 10 = Inl ValueError"
    by (simp add: skip_def py_pow_def)
  have "get_state (step_by_step \<lparr>lcg_a = 1, lcg_ainv = 1, lcg_b = 7, lcg_m = 100, lcg_x = 3\<rparr> 10) = 73"
    by (simp add: get_state_def step_by_step_def eval_nat_numeral lcg_next_def)
  with s init_unit show ?thesis
    by (simp add: after_skip_def get_state_def)
qed

subsection \<open>C3: getrandbits with a negative number of bits\<close>

text \<open>
  C3 says that \<open>getrandbits(k)\<close> raises for \<open>k < 0\<close>. The code does not: on a constructed
  object \<open>getrandbits(-1)\<close> returns 0 and leaves the object as it was.
\<close>

theorem getrandbits_negative_raises_counterexample:
  "init 5 3 16 7 = Inr \<lparr>lcg_a = 5, lcg_ainv = 13, lcg_b = 3, lcg_m = 16, lcg_x = 7\<rparr> \<and>
   getrandbits \<lparr>lcg_a = 5, lcg_ainv = 13, lcg_b = 3, lcg_m = 16, lcg_x = 7\<rparr> (- 1) = Inr (0, \<lparr>lcg_a = 5, lcg_ainv = 13, lcg_b = 3, lcg_m = 16, lcg_x = 7\<rparr>) \<and>
   getrandbits \<lparr>lcg_a = 5, lcg_ainv = 13, lcg_b = 3, lcg_m = 16, lcg_x = 7\<rparr> (- 1) \<noteq> Inl AssertionError \<and>
   getrandbits \<lparr>lcg_a = 5, lcg_ainv = 13, lcg_b = 3, lcg_m = 16, lcg_x = 7\<rparr> (- 1) \<noteq> Inl ValueError"
proof -
  have "getrandbits \<lparr>lcg_a = 5, lcg_ainv = 13, lcg_b = 3, lcg_m = 16, lcg_x = 7\<rparr> (- 1) = Inr (0, \<lparr>lcg_a = 5, lcg_ainv = 13, lcg_b = 3, lcg_m = 16, lcg_x = 7\<rparr>)"
    by (simp add: getrandbits_def)
  with init_five show ?thesis by simp
qed

text \<open>
  C3 as amended: \<open>getrandbits(k)\<close> with \<open>k < 0\<close> raises nothing; it returns 0 and leaves
  the object unchanged, since \<open>range(k)\<close> is empty.
\<close>

theorem getrandbits_negative_returns_zero:
  "k < 0 \<Longrightarrow> getrandbits e k = Inr (0, e)"
  by (simp add: getrandbits_def)

theorem getrandbits_negative_returns_zero_witness:
  "(- 3 :: int) < 0 \<and> getrandbits \<lparr>lcg_a = 5, lcg_ainv = 13, lcg_b = 3, lcg_m = 16, lcg_x = 7\<rparr> (- 3) = Inr (0, \<lparr>lcg_a = 5, lcg_ainv = 13, lcg_b = 3, lcg_m = 16, lcg_x = 7\<rparr>)"
  using getrandbits_negative_returns_zero [of "- 3" "\<lparr>lcg_a = 5, lcg_ainv = 13, lcg_b = 3, lcg_m = 16, lcg_x = 7\<rparr>"]
  by simp

subsection \<open>C4: the state stays in the range of the modulus\<close>

text \<open>
  C4: the state \<open>x\<close> satisfies \<open>0 \<le> x < m\<close> after construction and after every sequence of
  \<open>next()\<close>, \<open>previous()\<close> and \<open>skip(n)\<close> calls, and one more call of each of the three keeps
  it there; \<open>m\<close> is the modulus given to the constructor. For \<open>skip\<close> the object is taken
  as the call leaves it, whether it returned or raised.
\<close>

theorem state_stays_in_range:
  assumes "init a b m seed = Inr e0"
  shows "0 \<le> get_state e0 \<and> get_state e0 < lcg_m e0 \<and>
         0 \<le> get_state (run cs e0) \<and> get_state (run cs e0) < lcg_m (run cs e0) \<and>
         0 \<le> get_state (lcg_next (run cs e0)) \<and>
         get_state (lcg_next (run cs e0)) < lcg_m (lcg_next (run cs e0)) \<and>
         0 \<le> get_state (previous (run cs e0)) \<and>
         get_state (previous (run cs e0)) < lcg_m (previous (run cs e0)) \<and>
         0 \<le> get_state (after_skip (run cs e0) n) \<and>
         get_state (after_skip (run cs e0) n) < lcg_m (after_skip (run cs e0) n) \<and>
         lcg_m (run cs e0) = m"
proof -
  have inv: "class_invariant (run cs e0)"
    using assms by (rule reachable_invariant)
  have rng: "0 \<le> get_state e \<and> get_state e < lcg_m e" if "class_invariant e" for e
    using that by (simp add: class_invariant_def get_state_def)
  have "lcg_m (run cs e0) = m"
    using init_Inr(1)[OF assms] run_params[of cs e0]
    by (metis LcgRandom.select_convs(4))
  moreover have "class_invariant e0"
    using assms by (rule init_Inr(2))
  ultimately show ?thesis
    using rng[of e0] rng[OF inv] rng[OF invariant_lcg_next[OF inv]]
      rng[OF invariant_previous[OF inv]] rng[OF invariant_after_skip[OF inv, of n]]
    by simp
qed

text \<open>
  On the object constructed from \<open>(5, 3, 16, 7)\<close>; at state 2 the difference \<open>x - b\<close> is
  negative and \<open>previous\<close> yields 3.
\<close>

theorem state_stays_in_range_witness:
  "init 5 3 16 7 = Inr \<lparr>lcg_a = 5, lcg_ainv = 13, lcg_b = 3, lcg_m = 16, lcg_x = 7\<rparr> \<and>
   get_state (previous \<lparr>lcg_a = 5, lcg_ainv = 13, lcg_b = 3, lcg_m = 16, lcg_x = 2\<rparr>) = 3 \<and>
   0 \<le> get_state (previous (run [Previous] \<lparr>lcg_a = 5, lcg_ainv = 13, lcg_b = 3, lcg_m = 16, lcg_x = 7\<rparr>)) \<and>
   get_state (previous (run [Previous] \<lparr>lcg_a = 5, lcg_ainv = 13, lcg_b = 3, lcg_m = 16, lcg_x = 7\<rparr>)) < 16"
proof -
  have "get_state (previous \<lparr>lcg_a = 5, lcg_ainv = 13, lcg_b = 3, lcg_m = 16, lcg_x = 2\<rparr>) = 3"
    by (simp add: get_state_def previous_def)
  then show ?thesis
    using init_five state_stays_in_range[OF init_five, of "[Previous]" 0]
    by (simp add: previous_def)
qed

subsection \<open>C5: next and previous undo each other\<close>

text \<open>
  C5: in every state a constructed object can reach, \<open>next()\<close> followed by \<open>previous()\<close>
  restores the object, and so does \<open>previous()\<close> followed by \<open>next()\<close>.
\<close>

theorem next_previous_inverse:
  assumes "init a b m seed = Inr e0"
  shows "previous (lcg_next (run cs e0)) = run cs e0 \<and>
         lcg_next (previous (run cs e0)) = run cs e0"
  using reachable_invariant[OF assms, of cs]
  by (simp add: previous_lcg_next lcg_next_previous)

theorem next_previous_inverse_witness:
  "init 5 3 16 7 = Inr \<lparr>lcg_a = 5, lcg_ainv = 13, lcg_b = 3, lcg_m = 16, lcg_x = 7\<rparr> \<and>
   lcg_next \<lparr>lcg_a = 5, lcg_ainv = 13, lcg_b = 3, lcg_m = 16, lcg_x = 7\<rparr>
     = \<lparr>lcg_a = 5, lcg_ainv = 13, lcg_b = 3, lcg_m = 16, lcg_x = 6\<rparr> \<and>
   previous \<lparr>lcg_a = 5, lcg_ainv = 13, lcg_b = 3, lcg_m = 16, lcg_x = 6\<rparr>
     = \<lparr>lcg_a = 5, lcg_ainv = 13, lcg_b = 3, lcg_m = 16, lcg_x = 7\<rparr> \<and>
   lcg_next (previous \<lparr>lcg_a = 5, lcg_ainv = 13, lcg_b = 3, lcg_m = 16, lcg_x = 7\<rparr>)
     = \<lparr>lcg_a = 5, lcg_ainv = 13, lcg_b = 3, lcg_m = 16, lcg_x = 7\<rparr>"
proof -
  have n: "lcg_next \<lparr>lcg_a = 5, lcg_ainv = 13, lcg_b = 3, lcg_m = 16, lcg_x = 7\<rparr>
     = \<lparr>lcg_a = 5, lcg_ainv = 13, lcg_b = 3, lcg_m = 16, lcg_x = 6\<rparr>"
    by (simp add: lcg_next_def)
  from next_previous_inverse[OF init_five, of "[]"] show ?thesis
    using init_five by (simp add: n)
qed

subsection \<open>C6: when construction raises ValueError\<close>

text \<open>
  C6 says that construction raises NoInverseError, the \<open>ValueError\<close> of \<open>reciprocal_mod\<close>,
  exactly when \<open>gcd(a, m) \<noteq> 1\<close>. With \<open>a = 6\<close>, \<open>b = 0\<close>, \<open>m = 4\<close>, \<open>seed = 0\<close> the four
  assertions of \<open>__init__\<close> pass and \<open>gcd(6, 4) = 2\<close>, but the assertion \<open>0 <= x < mod\<close> of
  \<open>reciprocal_mod\<close> fails first: the error is \<open>AssertionError\<close>.
\<close>

theorem init_no_inverse_counterexample:
  "gcd (6::int) 4 \<noteq> 1 \<and> (0::int) < 6 \<and> (0::int) \<le> 0 \<and> (0::int) < 4 \<and>
   init 6 0 4 0 = Inl AssertionError \<and> init 6 0 4 0 \<noteq> Inl ValueError"
proof -
  have "init 6 0 4 0 = Inl AssertionError"
    by (simp add: init_AssertionError_iff)
  moreover have "gcd (6::int) 4 = 2"
    by (simp add: gcd_red_int[of 6 4] gcd_red_int[of 4 2])
  ultimately show ?thesis by simp
qed

text \<open>
  C6 as amended: construction raises \<open>ValueError\<close> exactly when every assertion passes
  (\<open>0 < a < m\<close>, \<open>b \<ge> 0\<close>, \<open>0 \<le> seed < m\<close>) and \<open>gcd(a, m) \<noteq> 1\<close>; no object is produced then.
  In particular \<open>a = 4\<close>, \<open>b = 1\<close>, \<open>m = 8\<close>, \<open>seed = 0\<close> raises \<open>ValueError\<close>.
\<close>

theorem init_no_inverse:
  "(init a b m seed = Inl ValueError \<longleftrightarrow>
      0 < a \<and> a < m \<and> 0 \<le> b \<and> 0 \<le> seed \<and> seed < m \<and> gcd a m \<noteq> 1) \<and>
   init 4 1 8 0 = Inl ValueError"
proof -
  have "init 4 1 8 0 = Inl ValueError"
    by (simp add: init_ValueError_iff)
  then show ?thesis by (simp add: init_ValueError_iff)
qed

subsection \<open>C7: invalid parameters\<close>

text \<open>
  C7: construction raises \<open>AssertionError\<close> (InvalidParameterError in the specification)
  and produces no object whenever \<open>a \<le> 0\<close>, or \<open>b < 0\<close>, or \<open>m \<le> 0\<close>, or the seed is outside
  \<open>[0, m)\<close>; in particular with \<open>seed = m\<close>, whatever \<open>a\<close>, \<open>b\<close> and \<open>m\<close> are.
\<close>

theorem init_invalid_parameter:
  "(a \<le> 0 \<or> b < 0 \<or> m \<le> 0 \<or> seed < 0 \<or> m \<le> seed \<longrightarrow> init a b m seed = Inl AssertionError) \<and>
   init a b m m = Inl AssertionError"
  by (simp add: init_AssertionError_iff)

theorem init_invalid_parameter_witness:
  "init 0 3 16 7 = Inl AssertionError \<and> init 5 (- 1) 16 7 = Inl AssertionError \<and>
   init 5 3 0 0 = Inl AssertionError \<and> init 5 3 16 (- 1) = Inl AssertionError \<and>
   init 5 3 16 16 = Inl AssertionError"
  using init_invalid_parameter[of 0 3 16 7] init_invalid_parameter[of 5 "- 1" 16 7]
    init_invalid_parameter[of 5 3 0 0] init_invalid_parameter[of 5 3 16 "- 1"]
    init_invalid_parameter[of 5 3 16 16]
  by simp

subsection \<open>C8: the modular inverse\<close>

text \<open>
  C8: for \<open>0 \<le> x < mod\<close>, \<open>mod > 0\<close> and \<open>gcd(x, mod) = 1\<close>, \<open>reciprocal_mod\<close> returns a \<open>y\<close> in
  \<open>[0, mod)\<close> with \<open>x * y \<equiv> 1 (mod mod)\<close>, and no other number of \<open>[0, mod)\<close> has this
  property.
\<close>

theorem reciprocal_mod_unique_inverse:
  assumes "0 \<le> x" "x < md" "0 < md" "gcd x md = 1"
  shows "\<exists>y. reciprocal_mod x md = Inr y \<and> 0 \<le> y \<and> y < md \<and> x * y mod md = 1 mod md \<and>
           (\<forall>y'. 0 \<le> y' \<and> y' < md \<and> x * y' mod md = 1 mod md \<longrightarrow> y' = y)"
proof -
  from assms obtain y where y: "reciprocal_mod x md = Inr y" "0 \<le> y" "y < md"
      "x * y mod md = 1 mod md"
    using reciprocal_mod_inverse[of md x] by auto
  have "y' = y" if "0 \<le> y'" "y' < md" "x * y' mod md = 1 mod md" for y'
    using that y by (intro inverse_unique[of y' md y x]) simp_all
  with y show ?thesis by blast
qed

theorem reciprocal_mod_unique_inverse_witness:
  "gcd (5::int) 16 = 1 \<and> reciprocal_mod 5 16 = Inr 13 \<and> (5::int) * 13 mod 16 = 1 mod 16"
proof -
  have g: "gcd (5::int) 16 = 1"
    by (simp add: gcd_red_int[of 5 16] gcd_red_int[of 16 5])
  have "\<exists>y. reciprocal_mod 5 16 = Inr y \<and> 0 \<le> y \<and> y < 16 \<and> 5 * y mod 16 = 1 mod 16 \<and>
           (\<forall>y'. 0 \<le> y' \<and> y' < 16 \<and> 5 * y' mod 16 = 1 mod 16 \<longrightarrow> y' = y)"
    by (rule reciprocal_mod_unique_inverse) (simp_all add: g)
  then obtain y where y: "reciprocal_mod 5 16 = Inr y" "5 * y mod 16 = 1 mod 16"
    by blast
  have "reciprocal_mod 5 16 = Inr 13"
    by code_simp
  with y g show ?thesis by simp
qed

subsection \<open>C9: getrandbits(0)\<close>

text \<open>
  C9: \<open>getrandbits(0)\<close> returns 0 and leaves the object, and so what \<open>get_state()\<close> returns,
  unchanged: the loop body, the only caller of \<open>randbit\<close>, runs zero times. This holds
  for every object, constructed or not.
\<close>

theorem getrandbits_zero:
  "getrandbits e 0 = Inr (0, e) \<and> getrandbits_loop (nat 0) 0 e = (0, e) \<and>
   (\<forall>r e'. getrandbits e 0 = Inr (r, e') \<longrightarrow> r = 0 \<and> get_state e' = get_state e)"
  by (simp add: getrandbits_def)

theorem getrandbits_zero_witness:
  "init 5 3 16 7 = Inr \<lparr>lcg_a = 5, lcg_ainv = 13, lcg_b = 3, lcg_m = 16, lcg_x = 7\<rparr> \<and> getrandbits \<lparr>lcg_a = 5, lcg_ainv = 13, lcg_b = 3, lcg_m = 16, lcg_x = 7\<rparr> 0 = Inr (0, \<lparr>lcg_a = 5, lcg_ainv = 13, lcg_b = 3, lcg_m = 16, lcg_x = 7\<rparr>) \<and> get_state \<lparr>lcg_a = 5, lcg_ainv = 13, lcg_b = 3, lcg_m = 16, lcg_x = 7\<rparr> = 7"
  using getrandbits_zero [of "\<lparr>lcg_a = 5, lcg_ainv = 13, lcg_b = 3, lcg_m = 16, lcg_x = 7\<rparr>"] init_five
  by (simp add: get_state_def)

subsection \<open>C10: the multiplier must be below the modulus\<close>

text \<open>
  C10: when \<open>a \<ge> m\<close> and the four assertions of \<open>__init__\<close> pass (\<open>a > 0\<close>, \<open>b \<ge> 0\<close>, \<open>m > 0\<close>,
  \<open>0 \<le> seed < m\<close>), construction reaches the call of \<open>reciprocal_mod\<close>, whose assertion
  \<open>0 <= x < mod\<close> fails, so construction raises \<open>AssertionError\<close>. This holds whatever
  \<open>gcd(a, m)\<close> is, so also when it is 1.
\<close>

theorem init_requires_multiplier_below_modulus:
  assumes "m \<le> a" "0 < m" "0 \<le> b" "0 \<le> seed" "seed < m"
  shows "reciprocal_mod a m = Inl AssertionError \<and>
         init a b m seed =
           (case reciprocal_mod a m of
              Inl err \<Rightarrow> Inl err
            | Inr ainv \<Rightarrow> Inr \<lparr>lcg_a = a, lcg_ainv = ainv, lcg_b = b, lcg_m = m, lcg_x = seed\<rparr>) \<and>
         init a b m seed = Inl AssertionError"
  using assms by (simp add: init_def reciprocal_mod_def)

theorem init_requires_multiplier_below_modulus_witness:
  "gcd (5::int) 3 = 1 \<and> reciprocal_mod 5 3 = Inl AssertionError \<and> init 5 0 3 0 = Inl AssertionError"
proof -
  have "gcd (5::int) 3 = 1" by (simp add: gcd_red_int[of 5 3] gcd_red_int[of 3 2])
  then show ?thesis
    using init_requires_multiplier_below_modulus[of 3 5 0 0] by simp
qed

end
